theory Spec2Isabelle
  imports Complex_Main
begin

section \<open>Data model\<close>

text \<open>
  The ledger of the banking backend: user documents with nine currency balances and a
  trading sub-document, the transaction collection and the mining collection. JavaScript
  numbers are modelled as reals (rounding of doubles is outside the model), dates as
  milliseconds in \<open>nat\<close>. A document's \<open>_id\<close> is its position in its
  collection: documents are never deleted by the code modelled here, so positions are
  stable and unique, as object ids are. Executions are sequential: a handler or a service
  run is one function from store to store. \<open>Notification.create\<close>,
  \<open>AuditLog.createLog\<close> and the logger write to sinks that no handler reads, and every
  call of them in the handlers below passes a document that satisfies its schema; they
  are left out.
\<close>

datatype currency = USD | EUR | GBP | CNY | NGN | BTC | TRX | TON | ETH

definition all_currencies :: "currency list" where
  "all_currencies = [USD, EUR, GBP, CNY, NGN, BTC, TRX, TON, ETH]"

datatype user_status = Active | Suspended | Banned

record trading_state =
  capital :: real
  profit :: real
  robotActive :: bool

text \<open>User model: \<open>balances\<close>, \<open>trading\<close> and \<open>status\<close> of the user schema.\<close>

record user =
  balances :: "currency \<Rightarrow> real"
  trading :: trading_state
  status :: user_status

datatype txn_type = T_send | T_receive | T_transfer | T_crypto_send | T_crypto_receive
  | T_mining | T_trading

datatype txn_status = T_pending | T_processing | T_completed | T_failed | T_cancelled

text \<open>
  Transaction model. A field the creating call leaves out is \<open>None\<close>. \<open>t_reference\<close> is
  the reference the request supplied; \<open>None\<close> stands for the reference the pre-save hook
  generates from the clock and \<open>Math.random()\<close> when the request gives none, which is
  taken to differ from every other reference. Names, descriptions and metadata are opaque
  strings that no handler branches on; they are left out.
\<close>

record transaction =
  t_user :: nat
  t_type :: txn_type
  t_currency :: "currency option"
  t_amount :: real
  t_fromCurrency :: "currency option"
  t_toCurrency :: "currency option"
  t_convertedAmount :: "real option"
  t_exchangeRate :: "real option"
  t_status :: txn_status
  t_reference :: "string option"

datatype mining_type = M_currency | M_crypto

text \<open>
  The status strings a mining document can hold. \<open>cancelled\<close> is not in the schema's enum,
  but \<open>updateMany\<close> writes it without running validators.
\<close>

datatype mining_status = M_pending | M_mining | M_completed | M_failed | M_cancelled

record mining =
  m_user :: nat
  m_currency :: currency
  m_type :: mining_type
  m_status :: mining_status
  m_progress :: real
  m_targetAmount :: real
  m_minedAmount :: real
  m_startTime :: nat
  m_endTime :: "nat option"
  m_nextMiningTime :: "nat option"
  m_transaction :: "nat option"

record store =
  users :: "user list"
  transactions :: "transaction list"
  minings :: "mining list"

datatype error_code = INVALID_TOKEN | ACCOUNT_SUSPENDED | VALIDATION_ERROR
  | INSUFFICIENT_BALANCE | SAME_CURRENCY | NO_PROFIT | TRANSACTION_FAILED | RECEIVE_FAILED
  | TRANSFER_FAILED | INTERNATIONAL_TRANSFER_FAILED | CRYPTO_SEND_FAILED
  | PROFIT_WITHDRAW_FAILED

datatype response = Success | Failure error_code

section \<open>Store operations\<close>

definition findById :: "nat \<Rightarrow> store \<Rightarrow> user option" where
  "findById uid s = (if uid < length (users s) then Some (users s ! uid) else None)"

text \<open>The \<open>min: 0\<close> validators of the user schema, run by \<open>user.save()\<close>.\<close>

definition user_valid :: "user \<Rightarrow> bool" where
  "user_valid u \<longleftrightarrow>
     list_all (\<lambda>c. 0 \<le> balances u c) all_currencies \<and>
     0 \<le> capital (trading u) \<and> 0 \<le> profit (trading u)"

text \<open>\<open>user.save()\<close>: \<open>None\<close> is the validation error it throws; nothing is written then.\<close>

definition save_user :: "nat \<Rightarrow> user \<Rightarrow> store \<Rightarrow> store option" where
  "save_user uid u s =
     (if user_valid u then Some (s\<lparr>users := (users s)[uid := u]\<rparr>) else None)"

text \<open>
  The validators of the transaction schema that a handler can violate: \<open>currency\<close> is
  required and \<open>amount\<close>, \<open>convertedAmount\<close> have \<open>min: 0\<close>.
\<close>

definition transaction_valid :: "transaction \<Rightarrow> bool" where
  "transaction_valid t \<longleftrightarrow>
     t_currency t \<noteq> None \<and> 0 \<le> t_amount t \<and>
     (case t_convertedAmount t of None \<Rightarrow> True | Some a \<Rightarrow> 0 \<le> a)"

text \<open>
  The unique sparse index on \<open>reference\<close>: the store refuses a document whose reference
  a stored transaction already has.
\<close>

fun reference_free :: "string option \<Rightarrow> store \<Rightarrow> bool" where
  "reference_free None s = True"
| "reference_free (Some r) s = (Some r \<notin> set (map t_reference (transactions s)))"

text \<open>
  \<open>Transaction.create\<close>: returns the new document's id and the extended collection;
  \<open>None\<close> is the validation error or the duplicate-key error it throws.
\<close>

definition create_transaction :: "transaction \<Rightarrow> store \<Rightarrow> (nat \<times> store) option" where
  "create_transaction t s =
     (if transaction_valid t \<and> reference_free (t_reference t) s
      then Some (length (transactions s), s\<lparr>transactions := transactions s @ [t]\<rparr>)
      else None)"

text \<open>
  The \<open>protect\<close> middleware, for a request whose token names the user \<open>uid\<close>: the
  error it answers with, or \<open>None\<close> when it calls \<open>next()\<close>.
\<close>

definition protect :: "nat \<Rightarrow> store \<Rightarrow> error_code option" where
  "protect uid s =
     (case findById uid s of
        None \<Rightarrow> Some INVALID_TOKEN
      | Some u \<Rightarrow> if status u \<noteq> Active then Some ACCOUNT_SUSPENDED else None)"

definition is_fiat :: "currency \<Rightarrow> bool" where
  "is_fiat c \<longleftrightarrow> c \<in> set [USD, EUR, GBP, CNY, NGN]"

definition is_crypto :: "currency \<Rightarrow> bool" where
  "is_crypto c \<longleftrightarrow> c \<in> set [BTC, TRX, TON, ETH]"

section \<open>Transaction routes\<close>

text \<open>
  A single-currency transaction document without a reference of the request, as the
  handlers and the services build it.
\<close>

definition plain_transaction ::
  "nat \<Rightarrow> txn_type \<Rightarrow> currency \<Rightarrow> real \<Rightarrow> txn_status \<Rightarrow> transaction" where
  "plain_transaction uid ty c amount st =
     \<lparr>t_user = uid, t_type = ty, t_currency = Some c, t_amount = amount,
      t_fromCurrency = None, t_toCurrency = None, t_convertedAmount = None,
      t_exchangeRate = None, t_status = st, t_reference = None\<rparr>"

text \<open>
  \<open>Joi.number().positive()\<close>: above 0, and a safe number, at most
  \<open>Number.MAX_SAFE_INTEGER = 2^53 - 1\<close>.
\<close>

definition joi_positive :: "real \<Rightarrow> bool" where
  "joi_positive x \<longleftrightarrow> 0 < x \<and> x \<le> 9007199254740991"

text \<open>\<open>Joi.string()\<close> on an optional key: absent, or a string that is not empty.\<close>

definition joi_optional_string :: "string option \<Rightarrow> bool" where
  "joi_optional_string x \<longleftrightarrow> x \<noteq> Some []"

text \<open>
  \<open>schemas.sendMoney\<close> and \<open>schemas.receiveMoney\<close>: a fiat currency, a positive amount,
  an optional reference. The names of the recipient, the sender and the bank are checked
  too and are not used by the model.
\<close>

definition sendMoney_schema :: "currency \<Rightarrow> real \<Rightarrow> string option \<Rightarrow> bool" where
  "sendMoney_schema c amount reference \<longleftrightarrow>
     is_fiat c \<and> joi_positive amount \<and> joi_optional_string reference"

definition receiveMoney_schema :: "currency \<Rightarrow> real \<Rightarrow> string option \<Rightarrow> bool" where
  "receiveMoney_schema c amount reference \<longleftrightarrow>
     is_fiat c \<and> joi_positive amount \<and> joi_optional_string reference"

text \<open>
  \<open>router.post('/send', protect, validate(schemas.sendMoney), ...)\<close>.
  A handler returns its response and the store it leaves behind. An exception after
  \<open>user.save()\<close> reaches the catch block with the balance already written.
\<close>

definition send ::
  "nat \<Rightarrow> currency \<Rightarrow> real \<Rightarrow> string option \<Rightarrow> store \<Rightarrow> response \<times> store" where
  "send uid c amount reference s =
     (case protect uid s of
        Some e \<Rightarrow> (Failure e, s)
      | None \<Rightarrow>
          if \<not> sendMoney_schema c amount reference then (Failure VALIDATION_ERROR, s)
          else
            (case findById uid s of
               None \<Rightarrow> (Failure TRANSACTION_FAILED, s)
             | Some u \<Rightarrow>
                 if balances u c < amount then (Failure INSUFFICIENT_BALANCE, s)
                 else
                   (case save_user uid
                           (u\<lparr>balances := (balances u)(c := balances u c - amount)\<rparr>) s of
                      None \<Rightarrow> (Failure TRANSACTION_FAILED, s)
                    | Some s1 \<Rightarrow>
                        (case create_transaction
                                ((plain_transaction uid T_send c amount T_completed)
                                   \<lparr>t_reference := reference\<rparr>) s1 of
                           None \<Rightarrow> (Failure TRANSACTION_FAILED, s1)
                         | Some (tid, s2) \<Rightarrow> (Success, s2)))))"

text \<open>\<open>router.post('/receive', protect, validate(schemas.receiveMoney), ...)\<close>\<close>

definition receive ::
  "nat \<Rightarrow> currency \<Rightarrow> real \<Rightarrow> string option \<Rightarrow> store \<Rightarrow> response \<times> store" where
  "receive uid c amount reference s =
     (case protect uid s of
        Some e \<Rightarrow> (Failure e, s)
      | None \<Rightarrow>
          if \<not> receiveMoney_schema c amount reference then (Failure VALIDATION_ERROR, s)
          else
            (case findById uid s of
               None \<Rightarrow> (Failure RECEIVE_FAILED, s)
             | Some u \<Rightarrow>
                 (case save_user uid
                         (u\<lparr>balances := (balances u)(c := balances u c + amount)\<rparr>) s of
                    None \<Rightarrow> (Failure RECEIVE_FAILED, s)
                  | Some s1 \<Rightarrow>
                      (case create_transaction
                              ((plain_transaction uid T_receive c amount T_completed)
                                 \<lparr>t_reference := reference\<rparr>) s1 of
                         None \<Rightarrow> (Failure RECEIVE_FAILED, s1)
                       | Some (tid, s2) \<Rightarrow> (Success, s2)))))"

fun currency_name :: "currency \<Rightarrow> string" where
  "currency_name USD = ''USD''"
| "currency_name EUR = ''EUR''"
| "currency_name GBP = ''GBP''"
| "currency_name CNY = ''CNY''"
| "currency_name NGN = ''NGN''"
| "currency_name BTC = ''BTC''"
| "currency_name TRX = ''TRX''"
| "currency_name TON = ''TON''"
| "currency_name ETH = ''ETH''"

text \<open>The \<open>conversionRates\<close> object literal of the transfer handler.\<close>

definition conversionRates :: "(string \<times> real) list" where
  "conversionRates =
     [(''USD-EUR'', 0.92), (''USD-GBP'', 0.79), (''USD-CNY'', 7.24), (''USD-NGN'', 1550),
      (''EUR-USD'', 1.09), (''GBP-USD'', 1.27), (''CNY-USD'', 0.14), (''NGN-USD'', 0.00065)]"

text \<open>\<open>conversionRates[key] || 1\<close>: a missing key and a falsy entry both give 1.\<close>

definition exchange_rate :: "currency \<Rightarrow> currency \<Rightarrow> real" where
  "exchange_rate fromCurrency toCurrency =
     (case map_of conversionRates (currency_name fromCurrency @ ''-'' @ currency_name toCurrency) of
        None \<Rightarrow> 1
      | Some r \<Rightarrow> if r = 0 then 1 else r)"

definition transfer_schema :: "currency \<Rightarrow> currency \<Rightarrow> real \<Rightarrow> bool" where
  "transfer_schema fromCurrency toCurrency amount \<longleftrightarrow>
     is_fiat fromCurrency \<and> is_fiat toCurrency \<and> joi_positive amount"

text \<open>
  \<open>router.post('/transfer', protect, validate(schemas.transfer), ...)\<close>. The transaction
  document is built without \<open>currency\<close>, which the transaction schema requires.
\<close>

definition transfer :: "nat \<Rightarrow> currency \<Rightarrow> currency \<Rightarrow> real \<Rightarrow> store \<Rightarrow> response \<times> store" where
  "transfer uid fromCurrency toCurrency amount s =
     (case protect uid s of
        Some e \<Rightarrow> (Failure e, s)
      | None \<Rightarrow>
          if \<not> transfer_schema fromCurrency toCurrency amount then (Failure VALIDATION_ERROR, s)
          else
            (case findById uid s of
               None \<Rightarrow> (Failure TRANSFER_FAILED, s)
             | Some u \<Rightarrow>
                 if fromCurrency = toCurrency then (Failure SAME_CURRENCY, s)
                 else if balances u fromCurrency < amount then (Failure INSUFFICIENT_BALANCE, s)
                 else
                   let rate = exchange_rate fromCurrency toCurrency;
                       convertedAmount = amount * rate;
                       b1 = (balances u)(fromCurrency := balances u fromCurrency - amount);
                       b2 = b1(toCurrency := b1 toCurrency + convertedAmount)
                   in
                     (case save_user uid (u\<lparr>balances := b2\<rparr>) s of
                        None \<Rightarrow> (Failure TRANSFER_FAILED, s)
                      | Some s1 \<Rightarrow>
                          (case create_transaction
                                  \<lparr>t_user = uid, t_type = T_transfer, t_currency = None,
                                   t_amount = amount, t_fromCurrency = Some fromCurrency,
                                   t_toCurrency = Some toCurrency,
                                   t_convertedAmount = Some convertedAmount,
                                   t_exchangeRate = Some rate, t_status = T_completed,
                                   t_reference = None\<rparr> s1 of
                             None \<Rightarrow> (Failure TRANSFER_FAILED, s1)
                           | Some (tid, s2) \<Rightarrow> (Success, s2)))))"

text \<open>
  \<open>router.post('/international', protect, ...)\<close>: no request schema, so the amount is any
  number; the transaction is created with status \<open>processing\<close>.
\<close>

definition international :: "nat \<Rightarrow> currency \<Rightarrow> real \<Rightarrow> store \<Rightarrow> response \<times> store" where
  "international uid c amount s =
     (case protect uid s of
        Some e \<Rightarrow> (Failure e, s)
      | None \<Rightarrow>
            (case findById uid s of
               None \<Rightarrow> (Failure INTERNATIONAL_TRANSFER_FAILED, s)
             | Some u \<Rightarrow>
                 if balances u c < amount then (Failure INSUFFICIENT_BALANCE, s)
                 else
                   (case save_user uid
                           (u\<lparr>balances := (balances u)(c := balances u c - amount)\<rparr>) s of
                      None \<Rightarrow> (Failure INTERNATIONAL_TRANSFER_FAILED, s)
                    | Some s1 \<Rightarrow>
                        (case create_transaction
                                (plain_transaction uid T_send c amount T_processing) s1 of
                           None \<Rightarrow> (Failure INTERNATIONAL_TRANSFER_FAILED, s1)
                         | Some (tid, s2) \<Rightarrow> (Success, s2)))))"

section \<open>Crypto routes\<close>

definition sendCrypto_schema :: "currency \<Rightarrow> real \<Rightarrow> bool" where
  "sendCrypto_schema c amount \<longleftrightarrow> is_crypto c \<and> joi_positive amount"

text \<open>\<open>router.post('/send', protect, validate(schemas.sendCrypto), ...)\<close> of the crypto routes.\<close>

definition crypto_send :: "nat \<Rightarrow> currency \<Rightarrow> real \<Rightarrow> store \<Rightarrow> response \<times> store" where
  "crypto_send uid c amount s =
     (case protect uid s of
        Some e \<Rightarrow> (Failure e, s)
      | None \<Rightarrow>
          if \<not> sendCrypto_schema c amount then (Failure VALIDATION_ERROR, s)
          else
            (case findById uid s of
               None \<Rightarrow> (Failure CRYPTO_SEND_FAILED, s)
             | Some u \<Rightarrow>
                 if balances u c < amount then (Failure INSUFFICIENT_BALANCE, s)
                 else
                   (case save_user uid
                           (u\<lparr>balances := (balances u)(c := balances u c - amount)\<rparr>) s of
                      None \<Rightarrow> (Failure CRYPTO_SEND_FAILED, s)
                    | Some s1 \<Rightarrow>
                        (case create_transaction
                                (plain_transaction uid T_crypto_send c amount T_completed) s1 of
                           None \<Rightarrow> (Failure CRYPTO_SEND_FAILED, s1)
                         | Some (tid, s2) \<Rightarrow> (Success, s2)))))"

section \<open>Trading routes and service\<close>

text \<open>\<open>router.post('/withdraw-profit', protect, ...)\<close>\<close>

definition withdraw_profit :: "nat \<Rightarrow> store \<Rightarrow> response \<times> store" where
  "withdraw_profit uid s =
     (case protect uid s of
        Some e \<Rightarrow> (Failure e, s)
      | None \<Rightarrow>
            (case findById uid s of
               None \<Rightarrow> (Failure PROFIT_WITHDRAW_FAILED, s)
             | Some u \<Rightarrow>
                 if profit (trading u) \<le> 0 then (Failure NO_PROFIT, s)
                 else
                   let profitAmount = profit (trading u) in
                     (case save_user uid
                             (u\<lparr>balances := (balances u)(USD := balances u USD + profitAmount),
                                trading := (trading u)\<lparr>profit := 0\<rparr>\<rparr>) s of
                        None \<Rightarrow> (Failure PROFIT_WITHDRAW_FAILED, s)
                      | Some s1 \<Rightarrow>
                          (case create_transaction
                                  (plain_transaction uid T_trading USD profitAmount T_completed) s1 of
                             None \<Rightarrow> (Failure PROFIT_WITHDRAW_FAILED, s1)
                           | Some (tid, s2) \<Rightarrow> (Success, s2)))))"

text \<open>
  One iteration of the loop of \<open>executeTradingRobots\<close> on the user document \<open>u\<close> read by
  \<open>User.find\<close>. The three calls of \<open>Math.random()\<close> are the parameters \<open>r1\<close>, \<open>r2\<close>, \<open>r3\<close>.
  An exception is caught inside the loop and leaves what was written so far.
\<close>

definition trade_amount :: "real \<Rightarrow> real \<Rightarrow> real" where
  "trade_amount cap r2 = cap * (0.01 + r2 * 0.05)"

definition trade_profit :: "real \<Rightarrow> real \<Rightarrow> real \<Rightarrow> real \<Rightarrow> real" where
  "trade_profit cap r1 r2 r3 =
     (if r1 > 0.35 then trade_amount cap r2 * (0.02 + r3 * 0.08)
      else - trade_amount cap r2 * 0.02)"

definition traded_user :: "real \<times> real \<times> real \<Rightarrow> user \<Rightarrow> user" where
  "traded_user r u =
     (case r of (r1, r2, r3) \<Rightarrow>
        let p = trade_profit (capital (trading u)) r1 r2 r3 in
          if r1 > 0.35 then u\<lparr>trading := (trading u)\<lparr>profit := profit (trading u) + p\<rparr>\<rparr>
          else u\<lparr>trading := (trading u)\<lparr>capital := max 0 (capital (trading u) - \<bar>p\<bar>)\<rparr>\<rparr>)"

definition trade_step :: "(nat \<Rightarrow> real \<times> real \<times> real) \<Rightarrow> nat \<times> user \<Rightarrow> store \<Rightarrow> store" where
  "trade_step rnd j s =
     (case j of (uid, u) \<Rightarrow>
        if capital (trading u) \<le> 0 then s
        else
          (case rnd uid of (r1, r2, r3) \<Rightarrow>
             (case save_user uid (traded_user (r1, r2, r3) u) s of
                None \<Rightarrow> s
              | Some s1 \<Rightarrow>
                  (case create_transaction
                          (plain_transaction uid T_trading USD
                             \<bar>trade_profit (capital (trading u)) r1 r2 r3\<bar> T_completed) s1 of
                     None \<Rightarrow> s1
                   | Some (tid, s2) \<Rightarrow> s2))))"

text \<open>\<open>User.find({'trading.robotActive': true, status: 'active'})\<close>, with the ids.\<close>

definition find_robots :: "store \<Rightarrow> (nat \<times> user) list" where
  "find_robots s =
     filter (\<lambda>(uid, u). robotActive (trading u) \<and> status u = Active) (enumerate 0 (users s))"

fun trade_loop :: "(nat \<Rightarrow> real \<times> real \<times> real) \<Rightarrow> (nat \<times> user) list \<Rightarrow> store \<Rightarrow> store" where
  "trade_loop rnd [] s = s"
| "trade_loop rnd (j # js) s = trade_loop rnd js (trade_step rnd j s)"

definition executeTradingRobots :: "(nat \<Rightarrow> real \<times> real \<times> real) \<Rightarrow> store \<Rightarrow> store" where
  "executeTradingRobots rnd s = trade_loop rnd (find_robots s) s"

section \<open>Mining model, routes and service\<close>


definition new_mining :: "nat \<Rightarrow> currency \<Rightarrow> mining_type \<Rightarrow> real \<Rightarrow> nat \<Rightarrow> mining" where
  "new_mining uid c ty targetAmount now =
     \<lparr>m_user = uid, m_currency = c, m_type = ty, m_status = M_mining, m_progress = 0,
      m_targetAmount = targetAmount, m_minedAmount = 0, m_startTime = now,
      m_endTime = None, m_nextMiningTime = None, m_transaction = None\<rparr>"

text \<open>\<open>miningSchema.statics.createMiningOperation\<close>; \<open>now\<close> is \<open>new Date()\<close>.\<close>

definition createMiningOperation ::
  "nat \<Rightarrow> currency \<Rightarrow> mining_type \<Rightarrow> real \<Rightarrow> nat \<Rightarrow> store \<Rightarrow> store" where
  "createMiningOperation uid c ty targetAmount now s =
     s\<lparr>minings := minings s @ [new_mining uid c ty targetAmount now]\<rparr>"





text \<open>\<open>Mining.find({status: 'mining'})\<close>: the documents read, with their ids.\<close>

definition find_mining :: "store \<Rightarrow> (nat \<times> mining) list" where
  "find_mining s = filter (\<lambda>(mid, m). m_status m = M_mining) (enumerate 0 (minings s))"

text \<open>
  \<open>mining.save()\<close> after the six assignments of the sweep: the modified paths are written
  to the stored document.
\<close>

definition complete_mining :: "real \<Rightarrow> nat \<Rightarrow> nat \<Rightarrow> mining \<Rightarrow> mining" where
  "complete_mining targetAmount now tid m =
     m\<lparr>m_status := M_completed, m_minedAmount := targetAmount, m_progress := 100,
       m_endTime := Some now, m_nextMiningTime := Some (now + 60 * 60 * 1000),
       m_transaction := Some tid\<rparr>"

text \<open>
  One iteration of the loop of \<open>processMiningCycles\<close> on the document \<open>m\<close> with id \<open>mid\<close>
  read by \<open>Mining.find\<close>. \<open>continue\<close> and the catch block of the loop both go on with the
  next document.
\<close>

definition process_job :: "nat \<Rightarrow> nat \<times> mining \<Rightarrow> store \<Rightarrow> store" where
  "process_job now j s =
     (case j of (mid, m) \<Rightarrow>
        (case findById (m_user m) s of
           None \<Rightarrow> s
         | Some u \<Rightarrow>
             if status u \<noteq> Active then s
             else
               (case save_user (m_user m)
                       (u\<lparr>balances :=
                            (balances u)(m_currency m :=
                               balances u (m_currency m) + m_targetAmount m)\<rparr>) s of
                  None \<Rightarrow> s
                | Some s1 \<Rightarrow>
                    (case create_transaction
                            (plain_transaction (m_user m) T_mining (m_currency m)
                               (m_targetAmount m) T_completed) s1 of
                       None \<Rightarrow> s1
                     | Some (tid, s2) \<Rightarrow>
                         createMiningOperation (m_user m) (m_currency m) (m_type m)
                           (m_targetAmount m) now
                           (s2\<lparr>minings :=
                                 (minings s2)[mid :=
                                    complete_mining (m_targetAmount m) now tid
                                      (minings s2 ! mid)]\<rparr>)))))"

fun process_jobs :: "nat \<Rightarrow> (nat \<times> mining) list \<Rightarrow> store \<Rightarrow> store" where
  "process_jobs now [] s = s"
| "process_jobs now (j # js) s = process_jobs now js (process_job now j s)"

definition processMiningCycles :: "nat \<Rightarrow> store \<Rightarrow> store" where
  "processMiningCycles now s = process_jobs now (find_mining s) s"

text \<open>
  Names for the parts of one iteration of the sweep, used to state its effect: the guard
  \<open>user && user.status === 'active'\<close>, the document given to \<open>Transaction.create\<close>,
  the job \<open>createMiningOperation\<close> starts afterwards, and the user document after
  \<open>user.balances[mining.currency] += mining.targetAmount\<close>.
\<close>

definition owner_active :: "store \<Rightarrow> mining \<Rightarrow> bool" where
  "owner_active s m \<longleftrightarrow> m_user m < length (users s) \<and> status (users s ! m_user m) = Active"

definition mining_reward :: "mining \<Rightarrow> transaction" where
  "mining_reward m =
     plain_transaction (m_user m) T_mining (m_currency m) (m_targetAmount m) T_completed"

definition successor :: "nat \<Rightarrow> mining \<Rightarrow> mining" where
  "successor now m = new_mining (m_user m) (m_currency m) (m_type m) (m_targetAmount m) now"

definition credited :: "mining \<Rightarrow> user \<Rightarrow> user" where
  "credited m u =
     u\<lparr>balances := (balances u)(m_currency m := balances u (m_currency m) + m_targetAmount m)\<rparr>"

text \<open>
  Two sweeps that overlap: the second reads the collection before the first has saved
  any document (each \<open>await\<close> of the first lets the second run), then both loops run.
\<close>

definition overlapping_sweeps :: "nat \<Rightarrow> nat \<Rightarrow> store \<Rightarrow> store" where
  "overlapping_sweeps now1 now2 s =
     process_jobs now2 (find_mining s) (process_jobs now1 (find_mining s) s)"

section \<open>Sequences of operations\<close>

text \<open>
  The balance-changing operations as commands, to speak of every sequence of them. The
  trading cycle carries its random draws, the sweep its clock.
\<close>

datatype operation =
    Op_send nat currency real "string option"
  | Op_receive nat currency real "string option"
  | Op_transfer nat currency currency real
  | Op_crypto_send nat currency real
  | Op_international nat currency real
  | Op_mining_completion nat
  | Op_trading_cycle "nat \<Rightarrow> real \<times> real \<times> real"
  | Op_withdraw_profit nat

fun apply_operation :: "operation \<Rightarrow> store \<Rightarrow> store" where
  "apply_operation (Op_send uid c amount reference) s = snd (send uid c amount reference s)"
| "apply_operation (Op_receive uid c amount reference) s =
     snd (receive uid c amount reference s)"
| "apply_operation (Op_transfer uid f t amount) s = snd (transfer uid f t amount s)"
| "apply_operation (Op_crypto_send uid c amount) s = snd (crypto_send uid c amount s)"
| "apply_operation (Op_international uid c amount) s = snd (international uid c amount s)"
| "apply_operation (Op_mining_completion now) s = processMiningCycles now s"
| "apply_operation (Op_trading_cycle rnd) s = executeTradingRobots rnd s"
| "apply_operation (Op_withdraw_profit uid) s = snd (withdraw_profit uid s)"

fun run :: "operation list \<Rightarrow> store \<Rightarrow> store" where
  "run [] s = s"
| "run (x # xs) s = run xs (apply_operation x s)"

definition balances_nonneg :: "store \<Rightarrow> bool" where
  "balances_nonneg s \<longleftrightarrow>
     list_all (\<lambda>u. list_all (\<lambda>c. 0 \<le> balances u c) all_currencies) (users s)"

section \<open>Example stores\<close>

definition demo_user :: user where
  "demo_user = \<lparr>balances = (\<lambda>_. 0)(USD := 100, EUR := 10),
     trading = \<lparr>capital = 0, profit = 0, robotActive = False\<rparr>, status = Active\<rparr>"

definition demo_store :: store where
  "demo_store = \<lparr>users = [demo_user], transactions = [], minings = []\<rparr>"


definition trader :: user where
  "trader = \<lparr>balances = (\<lambda>_. 0)(USD := 100),
     trading = \<lparr>capital = 10000, profit = 25, robotActive = True\<rparr>, status = Active\<rparr>"

definition trader_store :: store where
  "trader_store = \<lparr>users = [demo_user, trader], transactions = [], minings = []\<rparr>"

definition idle_job :: mining where
  "idle_job = \<lparr>m_user = 0, m_currency = USD, m_type = M_currency, m_status = M_completed,
     m_progress = 100, m_targetAmount = 1000, m_minedAmount = 1000, m_startTime = 0,
     m_endTime = Some 5, m_nextMiningTime = Some 9, m_transaction = Some 0\<rparr>"


definition fixed_draws :: "nat \<Rightarrow> real \<times> real \<times> real" where
  "fixed_draws uid = (if uid = 1 then (0.5, 0.2, 0.5) else (0.25, 0.8, 0.5))"

definition robots_store :: store where
  "robots_store = \<lparr>users = [demo_user, trader, trader\<lparr>status := Suspended\<rparr>, trader],
     transactions = [], minings = []\<rparr>"

definition suspended_user :: user where
  "suspended_user = \<lparr>balances = (\<lambda>_. 0)(USD := 100),
     trading = \<lparr>capital = 0, profit = 0, robotActive = False\<rparr>, status = Suspended\<rparr>"

definition sweep_store :: store where
  "sweep_store = \<lparr>users = [demo_user, suspended_user], transactions = [],
     minings = [new_mining 0 USD M_currency 1000 3, new_mining 1 USD M_currency 1000 3,
                idle_job, new_mining 0 BTC M_crypto 1 3]\<rparr>"

section \<open>Validators and rates\<close>

lemma set_all_currencies: "set all_currencies = UNIV"
proof -
  have "c \<in> set all_currencies" for c
    by (cases c) (simp_all add: all_currencies_def)
  then show ?thesis by auto
qed

lemma user_valid_iff:
  "user_valid u \<longleftrightarrow>
     (\<forall>c. 0 \<le> balances u c) \<and> 0 \<le> capital (trading u) \<and> 0 \<le> profit (trading u)"
  by (simp add: user_valid_def list_all_iff set_all_currencies)

lemma rate_entries_positive: "(k, r) \<in> set conversionRates \<Longrightarrow> 0 < r"
  by (auto simp: conversionRates_def)

lemma exchange_rate_table:
  "exchange_rate f t =
     (case map_of conversionRates (currency_name f @ ''-'' @ currency_name t) of
        None \<Rightarrow> 1 | Some r \<Rightarrow> r)"
  using rate_entries_positive
  by (fastforce simp: exchange_rate_def split: option.splits dest: map_of_SomeD)

lemma exchange_rate_positive: "0 < exchange_rate f t"
  using rate_entries_positive
  by (fastforce simp: exchange_rate_def split: option.splits dest: map_of_SomeD)

lemma save_user_frame:
  "save_user uid u' s = Some s' \<Longrightarrow>
     users s' = (users s)[uid := u'] \<and> transactions s' = transactions s \<and>
     minings s' = minings s"
  by (auto simp: save_user_def split: if_splits)

lemma create_transaction_frame:
  "create_transaction t s = Some (tid, s') \<Longrightarrow>
     users s' = users s \<and> transactions s' = transactions s @ [t] \<and>
     tid = length (transactions s) \<and> minings s' = minings s"
  by (auto simp: create_transaction_def split: if_splits)

section \<open>Send\<close>









section \<open>Withdraw profit\<close>

text \<open>
  C6. For an authenticated active account whose document satisfies the user schema:
  withdraw-profit answers \<open>NO_PROFIT\<close> exactly when the trading profit is at most 0, and
  then changes nothing; otherwise it succeeds, adds exactly the profit to the USD balance,
  sets the trading profit to 0 and appends one trading transaction of that amount.
\<close>

theorem withdraw_profit_spec:
  assumes "findById uid s = Some u" and "status u = Active" and "user_valid u"
  shows "(fst (withdraw_profit uid s) = Failure NO_PROFIT \<longleftrightarrow> profit (trading u) \<le> 0) \<and>
         (if profit (trading u) \<le> 0 then snd (withdraw_profit uid s) = s
          else withdraw_profit uid s =
                 (Success,
                  s\<lparr>users := (users s)[uid :=
                       u\<lparr>balances := (balances u)(USD := balances u USD + profit (trading u)),
                         trading := (trading u)\<lparr>profit := 0\<rparr>\<rparr>],
                    transactions := transactions s @
                      [plain_transaction uid T_trading USD (profit (trading u)) T_completed]\<rparr>))"
proof (cases "profit (trading u) \<le> 0")
  case True
  with assms show ?thesis by (simp add: withdraw_profit_def protect_def)
next
  case False
  then have "user_valid (u\<lparr>balances := (balances u)(USD := balances u USD + profit (trading u)),
                           trading := (trading u)\<lparr>profit := 0\<rparr>\<rparr>)"
    using assms(3) by (simp add: user_valid_iff)
  with assms False show ?thesis
    by (simp add: withdraw_profit_def protect_def save_user_def create_transaction_def
        transaction_valid_def plain_transaction_def Let_def)
qed

theorem withdraw_profit_spec_witness:
  "fst (withdraw_profit 0 trader_store) = Failure NO_PROFIT \<and>
   snd (withdraw_profit 0 trader_store) = trader_store \<and>
   fst (withdraw_profit 1 trader_store) = Success \<and>
   balances (users (snd (withdraw_profit 1 trader_store)) ! 1) USD = 125 \<and>
   profit (trading (users (snd (withdraw_profit 1 trader_store)) ! 1)) = 0"
  using withdraw_profit_spec [of 0 trader_store demo_user]
    withdraw_profit_spec [of 1 trader_store trader]
  by (simp add: trader_store_def trader_def demo_user_def findById_def user_valid_def
      all_currencies_def)

section \<open>Transfer between currencies\<close>

text \<open>
  When both guards pass, the balances are saved and then \<open>Transaction.create\<close> rejects
  the document, which has no \<open>currency\<close>: the handler answers \<open>TRANSFER_FAILED\<close> with
  the conversion already written.
\<close>

lemma transfer_passes:
  assumes "findById uid s = Some u" and "status u = Active" and "user_valid u"
    and "transfer_schema f t amount" and "f \<noteq> t" and "amount \<le> balances u f"
  shows "transfer uid f t amount s =
           (Failure TRANSFER_FAILED,
            s\<lparr>users := (users s)[uid :=
                 u\<lparr>balances := (balances u)(f := balances u f - amount,
                                            t := balances u t + amount * exchange_rate f t)\<rparr>]\<rparr>)"
proof -
  have a: "0 < amount" using assms(4) by (simp add: transfer_schema_def joi_positive_def)
  then have "0 \<le> amount * exchange_rate f t"
    using exchange_rate_positive [of f t] by simp
  then have "user_valid (u\<lparr>balances := (balances u)(f := balances u f - amount,
                                            t := balances u t + amount * exchange_rate f t)\<rparr>)"
    using assms(3,6) by (simp add: user_valid_iff)
  then show ?thesis
    using assms
    by (simp add: transfer_def protect_def save_user_def create_transaction_def
        transaction_valid_def Let_def)
qed

text \<open>
  C4. For an authenticated active account whose document satisfies the user schema and a
  request that passes \<open>schemas.transfer\<close>: with equal currencies the transfer answers
  \<open>SAME_CURRENCY\<close> and the store is unchanged; with distinct currencies and a sufficient
  source balance the account is stored with the source balance lowered by exactly the
  amount and the target balance raised by exactly amount times rate, the rate being the
  entry of the table under the key \<open>from-to\<close> and 1 when the key is absent.
\<close>

theorem transfer_spec:
  assumes "findById uid s = Some u" and "status u = Active" and "user_valid u"
    and "transfer_schema f t amount"
  shows "(f = t \<longrightarrow> transfer uid f t amount s = (Failure SAME_CURRENCY, s)) \<and>
         (f \<noteq> t \<and> amount \<le> balances u f \<longrightarrow>
            findById uid (snd (transfer uid f t amount s)) =
              Some (u\<lparr>balances := (balances u)
                      (f := balances u f - amount,
                       t := balances u t + amount *
                         (case map_of conversionRates (currency_name f @ ''-'' @ currency_name t) of
                            None \<Rightarrow> 1 | Some r \<Rightarrow> r))\<rparr>))"
proof (intro conjI impI)
  assume "f = t"
  with assms show "transfer uid f t amount s = (Failure SAME_CURRENCY, s)"
    by (simp add: transfer_def protect_def)
next
  assume h: "f \<noteq> t \<and> amount \<le> balances u f"
  have "uid < length (users s)"
    using assms(1) by (simp add: findById_def split: if_splits)
  then show "findById uid (snd (transfer uid f t amount s)) =
              Some (u\<lparr>balances := (balances u)
                      (f := balances u f - amount,
                       t := balances u t + amount *
                         (case map_of conversionRates (currency_name f @ ''-'' @ currency_name t) of
                            None \<Rightarrow> 1 | Some r \<Rightarrow> r))\<rparr>)"
    using transfer_passes [OF assms] h
    by (simp add: findById_def exchange_rate_table)
qed

theorem transfer_spec_witness:
  "transfer 0 USD USD 40 demo_store = (Failure SAME_CURRENCY, demo_store) \<and>
   balances (users (snd (transfer 0 USD EUR 40 demo_store)) ! 0) USD = 60 \<and>
   balances (users (snd (transfer 0 USD EUR 40 demo_store)) ! 0) EUR = 46.8 \<and>
   balances (users (snd (transfer 0 EUR GBP 4 demo_store)) ! 0) EUR = 6 \<and>
   balances (users (snd (transfer 0 EUR GBP 4 demo_store)) ! 0) GBP = 4"
  using transfer_spec [of 0 demo_store demo_user USD USD 40]
    transfer_spec [of 0 demo_store demo_user USD EUR 40]
    transfer_spec [of 0 demo_store demo_user EUR GBP 4]
  by (simp add: demo_store_def demo_user_def findById_def user_valid_def all_currencies_def
      transfer_schema_def joi_positive_def is_fiat_def conversionRates_def transfer_def
      protect_def
      exchange_rate_def save_user_def create_transaction_def transaction_valid_def Let_def)

text \<open>
  C8. Whatever its outcome, a transfer leaves every balance of the calling account other
  than the source and the target currency unchanged, and also the account's trading
  sub-document and status, every other user document and the mining collection.
\<close>

theorem transfer_frame:
  "length (users (snd (transfer uid f t amount s))) = length (users s) \<and>
   (\<forall>c. c \<noteq> f \<and> c \<noteq> t \<longrightarrow>
      balances (users (snd (transfer uid f t amount s)) ! uid) c = balances (users s ! uid) c) \<and>
   trading (users (snd (transfer uid f t amount s)) ! uid) = trading (users s ! uid) \<and>
   status (users (snd (transfer uid f t amount s)) ! uid) = status (users s ! uid) \<and>
   (\<forall>i. i \<noteq> uid \<longrightarrow> users (snd (transfer uid f t amount s)) ! i = users s ! i) \<and>
   minings (snd (transfer uid f t amount s)) = minings s"
  by (auto simp: transfer_def findById_def Let_def
      split: option.splits if_splits dest!: save_user_frame create_transaction_frame)

theorem transfer_frame_witness:
  "balances (users (snd (transfer 0 USD EUR 40 demo_store)) ! 0) USD = 60 \<and>
   balances (users (snd (transfer 0 USD EUR 40 demo_store)) ! 0) EUR = 46.8 \<and>
   balances (users (snd (transfer 0 USD EUR 40 demo_store)) ! 0) GBP = 0 \<and>
   balances (users (snd (transfer 0 USD EUR 40 demo_store)) ! 0) BTC = 0 \<and>
   trading (users (snd (transfer 0 USD EUR 40 demo_store)) ! 0) = trading demo_user"
  using transfer_frame [of 0 USD EUR 40 demo_store]
  by (simp add: demo_store_def demo_user_def findById_def user_valid_def all_currencies_def
      transfer_schema_def joi_positive_def is_fiat_def conversionRates_def transfer_def
      protect_def
      exchange_rate_def save_user_def create_transaction_def transaction_valid_def Let_def)

section \<open>Mining toggle\<close>



section \<open>Trading cycle\<close>

lemma trade_step_users:
  "users (trade_step rnd (uid, u) s) =
     (if capital (trading u) \<le> 0 \<or> \<not> user_valid (traded_user (rnd uid) u) then users s
      else (users s)[uid := traded_user (rnd uid) u])"
  by (auto simp: trade_step_def save_user_def create_transaction_def
      split: prod.splits option.splits if_splits)

lemma trade_loop_nth:
  "distinct (map fst js) \<Longrightarrow> i < length (users s) \<Longrightarrow>
   users (trade_loop rnd js s) ! i =
     (case map_of js i of
        None \<Rightarrow> users s ! i
      | Some u \<Rightarrow>
          if capital (trading u) \<le> 0 \<or> \<not> user_valid (traded_user (rnd i) u) then users s ! i
          else traded_user (rnd i) u)"
proof (induction js arbitrary: s)
  case Nil
  then show ?case by simp
next
  case (Cons j js)
  obtain uid u where j: "j = (uid, u)" by (cases j)
  have len: "i < length (users (trade_step rnd (uid, u) s))"
    using Cons.prems(2) by (simp add: trade_step_users)
  have d: "distinct (map fst js)" using Cons.prems(1) by simp
  have nth: "users (trade_step rnd (uid, u) s) ! i =
      (if uid = i \<and> \<not> (capital (trading u) \<le> 0 \<or> \<not> user_valid (traded_user (rnd i) u))
       then traded_user (rnd i) u else users s ! i)"
    using Cons.prems(2) by (cases "uid = i") (simp_all add: trade_step_users)
  show ?case
    unfolding j
  proof (cases "uid = i")
    case True
    then have "map_of js i = None"
      using Cons.prems(1) j by (simp add: map_of_eq_None_iff)
    then show "users (trade_loop rnd ((uid, u) # js) s) ! i =
      (case map_of ((uid, u) # js) i of
         None \<Rightarrow> users s ! i
       | Some u \<Rightarrow>
           if capital (trading u) \<le> 0 \<or> \<not> user_valid (traded_user (rnd i) u) then users s ! i
           else traded_user (rnd i) u)"
      using Cons.IH [OF d len] nth True by (simp split: option.splits)
  next
    case False
    then show "users (trade_loop rnd ((uid, u) # js) s) ! i =
      (case map_of ((uid, u) # js) i of
         None \<Rightarrow> users s ! i
       | Some u \<Rightarrow>
           if capital (trading u) \<le> 0 \<or> \<not> user_valid (traded_user (rnd i) u) then users s ! i
           else traded_user (rnd i) u)"
      using Cons.IH [OF d len] nth by (simp split: option.splits)
  qed
qed

lemma map_of_find_robots:
  "map_of (find_robots s) i =
     (if i < length (users s) \<and> robotActive (trading (users s ! i)) \<and>
         status (users s ! i) = Active
      then Some (users s ! i) else None)"
proof -
  have d: "distinct (map fst (find_robots s))"
    by (simp add: find_robots_def distinct_map_filter)
  have m: "(i, u) \<in> set (find_robots s) \<longleftrightarrow>
        i < length (users s) \<and> u = users s ! i \<and> robotActive (trading u) \<and> status u = Active"
    for u
    by (auto simp: find_robots_def in_set_enumerate_eq)
  show ?thesis
  proof (cases "map_of (find_robots s) i")
    case None
    then have "\<forall>u. (i, u) \<notin> set (find_robots s)"
      by (metis d map_of_eq_Some_iff option.distinct(1))
    then show ?thesis using None m by auto
  next
    case (Some u)
    then have "(i, u) \<in> set (find_robots s)" by (rule map_of_SomeD)
    then show ?thesis using Some m by auto
  qed
qed

lemma executeTradingRobots_nth:
  assumes "i < length (users s)"
  shows "users (executeTradingRobots rnd s) ! i =
     (if robotActive (trading (users s ! i)) \<and> status (users s ! i) = Active \<and>
         0 < capital (trading (users s ! i)) \<and>
         user_valid (traded_user (rnd i) (users s ! i))
      then traded_user (rnd i) (users s ! i) else users s ! i)"
proof -
  have d: "distinct (map fst (find_robots s))"
    by (simp add: find_robots_def distinct_map_filter)
  show ?thesis
    unfolding executeTradingRobots_def
    using trade_loop_nth [OF d assms, of rnd] assms
    by (auto simp: map_of_find_robots)
qed

lemma trade_amount_bounds:
  assumes "0 \<le> cap" and "0 \<le> r2"
  shows "0 \<le> trade_amount cap r2"
  using assms by (simp add: trade_amount_def)

lemma traded_user_valid:
  assumes "user_valid u" and "0 \<le> r2" and "0 \<le> r3"
  shows "user_valid (traded_user (r1, r2, r3) u)"
proof -
  have "0 \<le> trade_amount (capital (trading u)) r2"
    using assms by (simp add: trade_amount_bounds user_valid_iff)
  then have "0 \<le> trade_amount (capital (trading u)) r2 * (0.02 + r3 * 0.08)"
    using assms(3) by simp
  then show ?thesis
    using assms(1) by (simp add: traded_user_def trade_profit_def user_valid_iff Let_def)
qed

text \<open>
  C9. In one run of \<open>executeTradingRobots\<close>, with the draws of \<open>Math.random()\<close> for the
  account non-negative, every account whose document satisfies the user schema keeps or
  raises its trading profit and keeps or lowers its trading capital. A processed account
  (robot active, status active, capital above 0) with a profitable draw gets
  \<open>tradeAmount * (0.02 + r3 * 0.08)\<close> added to its profit and keeps its capital; with an
  unprofitable draw it keeps its profit and its capital becomes
  \<open>max 0 (capital - tradeAmount * 0.02)\<close>, a reduction of at most \<open>tradeAmount * 0.02\<close>.
\<close>

theorem trading_cycle_monotone:
  assumes "rnd i = (r1, r2, r3)" and "0 \<le> r2" and "0 \<le> r3"
    and "i < length (users s)" and "user_valid (users s ! i)"
  shows "profit (trading (users s ! i)) \<le> profit (trading (users (executeTradingRobots rnd s) ! i)) \<and>
         capital (trading (users (executeTradingRobots rnd s) ! i)) \<le> capital (trading (users s ! i)) \<and>
         (robotActive (trading (users s ! i)) \<and> status (users s ! i) = Active \<and>
          0 < capital (trading (users s ! i)) \<longrightarrow>
            (if r1 > 0.35
             then profit (trading (users (executeTradingRobots rnd s) ! i)) =
                    profit (trading (users s ! i)) +
                    trade_amount (capital (trading (users s ! i))) r2 * (0.02 + r3 * 0.08) \<and>
                  capital (trading (users (executeTradingRobots rnd s) ! i)) =
                    capital (trading (users s ! i))
             else profit (trading (users (executeTradingRobots rnd s) ! i)) =
                    profit (trading (users s ! i)) \<and>
                  capital (trading (users (executeTradingRobots rnd s) ! i)) =
                    max 0 (capital (trading (users s ! i)) -
                           trade_amount (capital (trading (users s ! i))) r2 * 0.02) \<and>
                  capital (trading (users s ! i)) -
                    capital (trading (users (executeTradingRobots rnd s) ! i))
                    \<le> trade_amount (capital (trading (users s ! i))) r2 * 0.02))"
proof -
  let ?u = "users s ! i"
  let ?ta = "trade_amount (capital (trading ?u)) r2"
  have ta: "0 \<le> ?ta"
    using assms(2,5) by (simp add: trade_amount_bounds user_valid_iff)
  then have tp: "0 \<le> ?ta * (0.02 + r3 * 0.08)"
    using assms(3) by simp
  have v: "user_valid (traded_user (rnd i) ?u)"
    unfolding assms(1) using assms(5,2,3) by (rule traded_user_valid)
  show ?thesis
  proof (cases "robotActive (trading ?u) \<and> status ?u = Active \<and> 0 < capital (trading ?u)")
    case False
    then show ?thesis
      by (auto simp: executeTradingRobots_nth [OF assms(4)])
  next
    case True
    then have cap: "0 < capital (trading ?u)" by simp
    from True have eq: "users (executeTradingRobots rnd s) ! i = traded_user (r1, r2, r3) ?u"
      using v by (simp add: executeTradingRobots_nth [OF assms(4)] assms(1))
    show ?thesis
    proof (cases "r1 > 0.35")
      case True
      then show ?thesis
        using tp by (simp add: eq traded_user_def trade_profit_def Let_def)
    next
      case False
      have "\<bar>- ?ta * 0.02\<bar> = ?ta * 0.02" using ta by simp
      then show ?thesis
        using False ta cap by (simp add: eq traded_user_def trade_profit_def Let_def max_def)
    qed
  qed
qed

theorem trading_cycle_monotone_witness:
  "profit (trading (users (executeTradingRobots fixed_draws robots_store) ! 1)) = 37 \<and>
   capital (trading (users (executeTradingRobots fixed_draws robots_store) ! 1)) = 10000 \<and>
   profit (trading (users (executeTradingRobots fixed_draws robots_store) ! 3)) = 25 \<and>
   capital (trading (users (executeTradingRobots fixed_draws robots_store) ! 3)) = 9990 \<and>
   capital (trading (users (executeTradingRobots fixed_draws robots_store) ! 2)) = 10000"
  using trading_cycle_monotone [of fixed_draws 1 "0.5" "0.2" "0.5" robots_store]
    trading_cycle_monotone [of fixed_draws 3 "0.25" "0.8" "0.5" robots_store]
    trading_cycle_monotone [of fixed_draws 2 "0.25" "0.8" "0.5" robots_store]
  by (simp add: fixed_draws_def robots_store_def trader_def demo_user_def user_valid_def
      all_currencies_def trade_amount_def executeTradingRobots_def find_robots_def
      trade_step_def traded_user_def trade_profit_def save_user_def create_transaction_def
      transaction_valid_def plain_transaction_def)

section \<open>Mining completion sweep\<close>

lemma process_job_skipped:
  "\<not> owner_active s m \<Longrightarrow> process_job now (mid, m) s = s"
  by (simp add: process_job_def owner_active_def findById_def)

lemma credited_valid:
  "user_valid u \<Longrightarrow> 0 \<le> m_targetAmount m \<Longrightarrow> user_valid (credited m u)"
  by (simp add: user_valid_iff credited_def)

lemma process_job_done:
  assumes "owner_active s m" and "user_valid (users s ! m_user m)" and "0 \<le> m_targetAmount m"
  shows "process_job now (mid, m) s =
           s\<lparr>users := (users s)[m_user m := credited m (users s ! m_user m)],
             transactions := transactions s @ [mining_reward m],
             minings := (minings s)[mid :=
                 complete_mining (m_targetAmount m) now (length (transactions s)) (minings s ! mid)]
               @ [successor now m]\<rparr>"
  using assms credited_valid [OF assms(2,3)]
  by (simp add: process_job_def owner_active_def findById_def save_user_def
      create_transaction_def transaction_valid_def plain_transaction_def mining_reward_def
      successor_def createMiningOperation_def credited_def)

text \<open>
  When the credit would leave a document that fails the \<open>min: 0\<close> validators,
  \<open>user.save()\<close> throws and the iteration changes nothing.
\<close>

lemma process_job_rejected:
  "owner_active s m \<Longrightarrow> \<not> user_valid (credited m (users s ! m_user m)) \<Longrightarrow>
   process_job now (mid, m) s = s"
  by (simp add: process_job_def owner_active_def findById_def save_user_def credited_def)

text \<open>What one iteration does when the documents pass their validators.\<close>

lemma process_job_cases:
  assumes "list_all user_valid (users s)" and "0 \<le> m_targetAmount m"
  shows "process_job now (mid, m) s =
     (if owner_active s m
      then s\<lparr>users := (users s)[m_user m := credited m (users s ! m_user m)],
             transactions := transactions s @ [mining_reward m],
             minings := (minings s)[mid :=
                 complete_mining (m_targetAmount m) now (length (transactions s)) (minings s ! mid)]
               @ [successor now m]\<rparr>
      else s)"
proof (cases "owner_active s m")
  case True
  then have "user_valid (users s ! m_user m)"
    using assms(1) by (simp add: owner_active_def list_all_length)
  with True assms(2) show ?thesis by (simp add: process_job_done)
next
  case False
  then show ?thesis by (simp add: process_job_skipped)
qed

lemma process_job_valid:
  assumes "list_all user_valid (users s)" and "0 \<le> m_targetAmount m"
  shows "list_all user_valid (users (process_job now (mid, m) s))"
proof (cases "owner_active s m")
  case True
  then have "user_valid (credited m (users s ! m_user m))"
    using assms by (simp add: owner_active_def list_all_length credited_valid)
  then show ?thesis
    using assms True
    by (auto simp: process_job_cases list_all_iff dest!: set_update_subset_insert [THEN subsetD])
next
  case False
  with assms show ?thesis by (simp add: process_job_cases)
qed

lemma process_job_owner_active:
  assumes "list_all user_valid (users s)" and "0 \<le> m_targetAmount m"
  shows "owner_active (process_job now (mid, m) s) m' = owner_active s m'"
  using assms
  by (auto simp: process_job_cases owner_active_def credited_def nth_list_update)

lemma process_jobs_valid:
  "list_all user_valid (users s) \<Longrightarrow> \<forall>j \<in> set js. 0 \<le> m_targetAmount (snd j) \<Longrightarrow>
   list_all user_valid (users (process_jobs now js s))"
proof (induction js arbitrary: s)
  case Nil
  then show ?case by simp
next
  case (Cons j js)
  obtain mid m where j: "j = (mid, m)" by (cases j)
  have "list_all user_valid (users (process_job now (mid, m) s))"
    using Cons.prems by (simp add: j process_job_valid)
  then show ?case
    using Cons.IH Cons.prems(2) by (simp add: j)
qed

lemma process_jobs_owner_active:
  "list_all user_valid (users s) \<Longrightarrow> \<forall>j \<in> set js. 0 \<le> m_targetAmount (snd j) \<Longrightarrow>
   owner_active (process_jobs now js s) m' = owner_active s m'"
proof (induction js arbitrary: s)
  case Nil
  then show ?case by simp
next
  case (Cons j js)
  obtain mid m where j: "j = (mid, m)" by (cases j)
  have v: "list_all user_valid (users (process_job now (mid, m) s))"
    using Cons.prems by (simp add: j process_job_valid)
  have "owner_active (process_job now (mid, m) s) m' = owner_active s m'"
    using Cons.prems by (simp add: j process_job_owner_active)
  then show ?case
    using Cons.IH [OF v] Cons.prems(2) by (simp add: j)
qed

lemma process_jobs_transactions:
  "list_all user_valid (users s) \<Longrightarrow> \<forall>j \<in> set js. 0 \<le> m_targetAmount (snd j) \<Longrightarrow>
   transactions (process_jobs now js s) =
     transactions s @ map mining_reward (filter (owner_active s) (map snd js))"
proof (induction js arbitrary: s)
  case Nil
  then show ?case by simp
next
  case (Cons j js)
  obtain mid m where j: "j = (mid, m)" by (cases j)
  let ?s1 = "process_job now (mid, m) s"
  have v: "list_all user_valid (users ?s1)"
    using Cons.prems by (simp add: j process_job_valid)
  have oa: "owner_active ?s1 = owner_active s"
    using Cons.prems by (simp add: j process_job_owner_active fun_eq_iff)
  have t1: "transactions ?s1 =
      transactions s @ (if owner_active s m then [mining_reward m] else [])"
    using Cons.prems by (simp add: j process_job_cases)
  show ?case
    using Cons.IH [OF v] Cons.prems(2) by (simp add: j oa t1)
qed

lemma process_jobs_users:
  "list_all user_valid (users s) \<Longrightarrow> \<forall>j \<in> set js. 0 \<le> m_targetAmount (snd j) \<Longrightarrow>
   length (users (process_jobs now js s)) = length (users s) \<and>
   (\<forall>i < length (users s).
      trading (users (process_jobs now js s) ! i) = trading (users s ! i) \<and>
      status (users (process_jobs now js s) ! i) = status (users s ! i) \<and>
      (\<forall>c. balances (users (process_jobs now js s) ! i) c =
            balances (users s ! i) c +
            (if status (users s ! i) = Active
             then sum_list (map m_targetAmount
                    (filter (\<lambda>m. m_user m = i \<and> m_currency m = c) (map snd js)))
             else 0)))"
proof (induction js arbitrary: s)
  case Nil
  then show ?case by simp
next
  case (Cons j js)
  obtain mid m where j: "j = (mid, m)" by (cases j)
  let ?s1 = "process_job now (mid, m) s"
  have v: "list_all user_valid (users ?s1)"
    using Cons.prems by (simp add: j process_job_valid)
  have u1: "users ?s1 =
      (if owner_active s m then (users s)[m_user m := credited m (users s ! m_user m)]
       else users s)"
    using Cons.prems by (simp add: j process_job_cases)
  have len: "length (users ?s1) = length (users s)" by (simp add: u1)
  have step: "trading (users ?s1 ! i) = trading (users s ! i) \<and>
      status (users ?s1 ! i) = status (users s ! i) \<and>
      balances (users ?s1 ! i) c = balances (users s ! i) c +
        (if status (users s ! i) = Active \<and> m_user m = i \<and> m_currency m = c
         then m_targetAmount m else 0)"
    if "i < length (users s)" for i c
    using that
    by (auto simp: u1 owner_active_def credited_def nth_list_update)
  have ih: "length (users (process_jobs now js ?s1)) = length (users ?s1) \<and>
   (\<forall>i < length (users ?s1).
      trading (users (process_jobs now js ?s1) ! i) = trading (users ?s1 ! i) \<and>
      status (users (process_jobs now js ?s1) ! i) = status (users ?s1 ! i) \<and>
      (\<forall>c. balances (users (process_jobs now js ?s1) ! i) c =
            balances (users ?s1 ! i) c +
            (if status (users ?s1 ! i) = Active
             then sum_list (map m_targetAmount
                    (filter (\<lambda>m. m_user m = i \<and> m_currency m = c) (map snd js)))
             else 0)))"
    using Cons.IH [OF v] Cons.prems(2) by simp
  show ?case
    using ih step by (simp add: j len)
qed

lemma process_job_minings:
  assumes "list_all user_valid (users s)" and "0 \<le> m_targetAmount m"
  shows "minings (process_job now (mid, m) s) =
     (if owner_active s m
      then (minings s)[mid :=
             complete_mining (m_targetAmount m) now (length (transactions s)) (minings s ! mid)]
           @ [successor now m]
      else minings s)"
  using assms by (simp add: process_job_cases)

lemma process_jobs_minings_length:
  "list_all user_valid (users s) \<Longrightarrow> \<forall>j \<in> set js. 0 \<le> m_targetAmount (snd j) \<Longrightarrow>
   length (minings (process_jobs now js s)) =
     length (minings s) + length (filter (owner_active s) (map snd js))"
proof (induction js arbitrary: s)
  case Nil
  then show ?case by simp
next
  case (Cons j js)
  obtain mid m where j: "j = (mid, m)" by (cases j)
  let ?s1 = "process_job now (mid, m) s"
  have v: "list_all user_valid (users ?s1)"
    using Cons.prems by (simp add: j process_job_valid)
  have oa: "owner_active ?s1 = owner_active s"
    using Cons.prems by (simp add: j process_job_owner_active fun_eq_iff)
  have m1: "length (minings ?s1) = length (minings s) + (if owner_active s m then 1 else 0)"
    using Cons.prems by (simp add: j process_job_minings)
  show ?case
    using Cons.IH [OF v] Cons.prems(2) by (simp add: j oa m1)
qed

lemma process_jobs_untouched:
  "list_all user_valid (users s) \<Longrightarrow> \<forall>j \<in> set js. 0 \<le> m_targetAmount (snd j) \<Longrightarrow>
   k < length (minings s) \<Longrightarrow> \<forall>j \<in> set js. fst j = k \<longrightarrow> \<not> owner_active s (snd j) \<Longrightarrow>
   minings (process_jobs now js s) ! k = minings s ! k"
proof (induction js arbitrary: s)
  case Nil
  then show ?case by simp
next
  case (Cons j js)
  obtain mid m where j: "j = (mid, m)" by (cases j)
  let ?s1 = "process_job now (mid, m) s"
  have v: "list_all user_valid (users ?s1)"
    using Cons.prems(1,2) by (simp add: j process_job_valid)
  have oa: "owner_active ?s1 = owner_active s"
    using Cons.prems(1,2) by (simp add: j process_job_owner_active fun_eq_iff)
  have skip: "mid = k \<longrightarrow> \<not> owner_active s m"
    using Cons.prems(4) by (simp add: j)
  have m1: "minings ?s1 ! k = minings s ! k"
    using Cons.prems(1,2,3) skip by (auto simp: j process_job_minings nth_append)
  have k1: "k < length (minings ?s1)"
    using Cons.prems(1,2,3) by (simp add: j process_job_minings)
  have "minings (process_jobs now js ?s1) ! k = minings ?s1 ! k"
    using Cons.IH [OF v _ k1] Cons.prems(2,4) by (simp add: oa)
  then show ?case by (simp add: j m1)
qed

lemma process_jobs_successors:
  "list_all user_valid (users s) \<Longrightarrow> \<forall>j \<in> set js. 0 \<le> m_targetAmount (snd j) \<Longrightarrow>
   \<forall>j \<in> set js. fst j < length (minings s) \<Longrightarrow>
   drop (length (minings s)) (minings (process_jobs now js s)) =
     map (successor now) (filter (owner_active s) (map snd js))"
proof (induction js arbitrary: s)
  case Nil
  then show ?case by simp
next
  case (Cons j js)
  obtain mid m where j: "j = (mid, m)" by (cases j)
  let ?s1 = "process_job now (mid, m) s"
  let ?n = "length (minings s)"
  have v: "list_all user_valid (users ?s1)"
    using Cons.prems(1,2) by (simp add: j process_job_valid)
  have oa: "owner_active ?s1 = owner_active s"
    using Cons.prems(1,2) by (simp add: j process_job_owner_active fun_eq_iff)
  have tg: "\<forall>j \<in> set js. 0 \<le> m_targetAmount (snd j)" using Cons.prems(2) by simp
  show ?case
  proof (cases "owner_active s m")
    case False
    then have "?s1 = s" by (simp add: process_job_skipped)
    then show ?thesis
      using Cons.IH [of s] Cons.prems False by (simp add: j)
  next
    case True
    have m1: "minings ?s1 =
        (minings s)[mid := complete_mining (m_targetAmount m) now (length (transactions s))
                             (minings s ! mid)] @ [successor now m]"
      using Cons.prems(1,2) True by (simp add: j process_job_minings)
    then have len1: "length (minings ?s1) = Suc ?n" by simp
    have at_n: "minings ?s1 ! ?n = successor now m" by (simp add: m1 nth_append)
    have bound: "\<forall>j \<in> set js. fst j < length (minings ?s1)"
      using Cons.prems(3) by (auto simp: len1)
    have ih: "drop (Suc ?n) (minings (process_jobs now js ?s1)) =
        map (successor now) (filter (owner_active s) (map snd js))"
      using Cons.IH [OF v tg bound] by (simp add: len1 oa)
    have "\<forall>j \<in> set js. fst j = ?n \<longrightarrow> \<not> owner_active ?s1 (snd j)"
      using Cons.prems(3) by auto
    then have keep: "minings (process_jobs now js ?s1) ! ?n = successor now m"
      using process_jobs_untouched [OF v tg, of ?n now] by (simp add: len1 at_n)
    have "?n < length (minings (process_jobs now js ?s1))"
      using process_jobs_minings_length [OF v tg, of now] by (simp add: len1)
    then have "drop ?n (minings (process_jobs now js ?s1)) =
        minings (process_jobs now js ?s1) ! ?n # drop (Suc ?n) (minings (process_jobs now js ?s1))"
      by (rule Cons_nth_drop_Suc [symmetric])
    then show ?thesis
      using True by (simp add: j ih keep)
  qed
qed

lemma process_jobs_completed:
  "list_all user_valid (users s) \<Longrightarrow> \<forall>j \<in> set js. 0 \<le> m_targetAmount (snd j) \<Longrightarrow>
   distinct (map fst js) \<Longrightarrow> (mid, m) \<in> set js \<Longrightarrow> mid < length (minings s) \<Longrightarrow>
   owner_active s m \<Longrightarrow>
   \<exists>tid < length (transactions (process_jobs now js s)).
      minings (process_jobs now js s) ! mid =
        complete_mining (m_targetAmount m) now tid (minings s ! mid) \<and>
      transactions (process_jobs now js s) ! tid = mining_reward m"
proof (induction js arbitrary: s)
  case Nil
  then show ?case by simp
next
  case (Cons j js)
  obtain mid0 m0 where j: "j = (mid0, m0)" by (cases j)
  let ?s1 = "process_job now (mid0, m0) s"
  let ?s' = "process_jobs now js ?s1"
  have v: "list_all user_valid (users ?s1)"
    using Cons.prems(1,2) by (simp add: j process_job_valid)
  have oa: "owner_active ?s1 = owner_active s"
    using Cons.prems(1,2) by (simp add: j process_job_owner_active fun_eq_iff)
  have tg: "\<forall>j \<in> set js. 0 \<le> m_targetAmount (snd j)" using Cons.prems(2) by simp
  have d: "distinct (map fst js)" using Cons.prems(3) by simp
  have k1: "mid < length (minings ?s1)"
    using Cons.prems(1,2,5) by (simp add: j process_job_minings)
  have tr: "transactions ?s' =
      transactions ?s1 @ map mining_reward (filter (owner_active s) (map snd js))"
    using process_jobs_transactions [OF v tg, of now] by (simp add: oa)
  show ?case
  proof (cases "(mid, m) = (mid0, m0)")
    case True
    then have eq: "mid0 = mid" "m0 = m" by simp_all
    have "mid \<notin> fst ` set js"
      using Cons.prems(3) by (simp add: j eq)
    then have "\<forall>j \<in> set js. fst j = mid \<longrightarrow> \<not> owner_active ?s1 (snd j)" by auto
    then have keep: "minings ?s' ! mid = minings ?s1 ! mid"
      using process_jobs_untouched [OF v tg k1, of now] by simp
    have m1: "minings ?s1 ! mid =
        complete_mining (m_targetAmount m) now (length (transactions s)) (minings s ! mid)"
      using Cons.prems(1,2,5,6) by (simp add: j eq process_job_minings nth_append)
    have t1: "transactions ?s1 = transactions s @ [mining_reward m]"
      using Cons.prems(1,2,6) by (simp add: j eq process_job_cases)
    have "length (transactions s) < length (transactions ?s')"
      by (simp add: tr t1)
    moreover have "transactions ?s' ! length (transactions s) = mining_reward m"
      by (simp add: tr t1 nth_append)
    ultimately show ?thesis
      using keep m1 by (auto simp: j)
  next
    case False
    then have mem: "(mid, m) \<in> set js" using Cons.prems(4) by (auto simp: j)
    then have "mid \<in> fst ` set js" by force
    then have ne: "mid \<noteq> mid0" using Cons.prems(3) by (auto simp: j)
    have same: "minings ?s1 ! mid = minings s ! mid"
      using Cons.prems(1,2,5) ne by (simp add: j process_job_minings nth_append)
    have "owner_active ?s1 m" using Cons.prems(6) by (simp add: oa)
    from Cons.IH [OF v tg d mem k1 this] show ?thesis
      by (simp add: j same)
  qed
qed

lemma map_snd_filter_enumerate:
  "map snd (filter (\<lambda>(i, x). P x) (enumerate n xs)) = filter P xs"
  by (induction xs arbitrary: n) auto

lemma find_mining_snd:
  "map snd (find_mining s) = filter (\<lambda>m. m_status m = M_mining) (minings s)"
  by (simp add: find_mining_def map_snd_filter_enumerate)

lemma find_mining_distinct: "distinct (map fst (find_mining s))"
  by (simp add: find_mining_def distinct_map_filter)

lemma find_mining_mem:
  "(mid, m) \<in> set (find_mining s) \<longleftrightarrow>
     mid < length (minings s) \<and> m = minings s ! mid \<and> m_status m = M_mining"
  by (auto simp: find_mining_def in_set_enumerate_eq)

lemma find_mining_targets:
  assumes "\<forall>m \<in> set (minings s). m_status m = M_mining \<longrightarrow> 0 \<le> m_targetAmount m"
  shows "\<forall>j \<in> set (find_mining s). 0 \<le> m_targetAmount (snd j)"
proof
  fix j assume "j \<in> set (find_mining s)"
  then have "snd j \<in> set (map snd (find_mining s))" by simp
  then show "0 \<le> m_targetAmount (snd j)"
    using assms by (simp add: find_mining_snd)
qed

text \<open>
  C3 (as amended). Let every user document satisfy the user schema and every job in
  status mining have a non-negative target, as every job the code creates has. One run of
  \<open>processMiningCycles\<close> handles exactly the jobs in status mining whose owning account
  exists and has status active; a job whose owner is missing, suspended or banned is
  skipped and stays as it is. Each handled job becomes completed with
  \<open>minedAmount = targetAmount\<close>, \<open>progress = 100\<close>, \<open>endTime\<close> stamped and a reference to
  its own reward transaction; each balance of an active account rises by the sum of the
  targets of its jobs in status mining in that currency; one reward transaction is
  appended per handled job; and the jobs added to the collection are exactly one
  successor per handled job, in status mining, for the same account, currency, type and
  target.
\<close>

theorem mining_sweep_spec:
  assumes "list_all user_valid (users s)"
    and "\<forall>m \<in> set (minings s). m_status m = M_mining \<longrightarrow> 0 \<le> m_targetAmount m"
  shows "(\<forall>i < length (minings s).
            if m_status (minings s ! i) = M_mining \<and> owner_active s (minings s ! i)
            then \<exists>tid < length (transactions (processMiningCycles now s)).
                   minings (processMiningCycles now s) ! i =
                     (minings s ! i)
                       \<lparr>m_status := M_completed,
                        m_minedAmount := m_targetAmount (minings s ! i),
                        m_progress := 100, m_endTime := Some now,
                        m_nextMiningTime := Some (now + 60 * 60 * 1000),
                        m_transaction := Some tid\<rparr> \<and>
                   transactions (processMiningCycles now s) ! tid = mining_reward (minings s ! i)
            else minings (processMiningCycles now s) ! i = minings s ! i) \<and>
         (\<forall>i < length (users s). \<forall>c.
            balances (users (processMiningCycles now s) ! i) c =
              balances (users s ! i) c +
              (if status (users s ! i) = Active
               then sum_list (map m_targetAmount
                      (filter (\<lambda>m. m_status m = M_mining \<and> m_user m = i \<and> m_currency m = c)
                         (minings s)))
               else 0)) \<and>
         transactions (processMiningCycles now s) =
           transactions s @
           map mining_reward
             (filter (\<lambda>m. m_status m = M_mining \<and> owner_active s m) (minings s)) \<and>
         drop (length (minings s)) (minings (processMiningCycles now s)) =
           map (successor now)
             (filter (\<lambda>m. m_status m = M_mining \<and> owner_active s m) (minings s))"
proof -
  let ?js = "find_mining s"
  let ?s' = "processMiningCycles now s"
  have tg: "\<forall>j \<in> set ?js. 0 \<le> m_targetAmount (snd j)"
    using assms(2) by (rule find_mining_targets)
  have s': "?s' = process_jobs now ?js s" by (simp add: processMiningCycles_def)
  have jobs: "if m_status (minings s ! i) = M_mining \<and> owner_active s (minings s ! i)
            then \<exists>tid < length (transactions ?s').
                   minings ?s' ! i =
                     (minings s ! i)
                       \<lparr>m_status := M_completed,
                        m_minedAmount := m_targetAmount (minings s ! i),
                        m_progress := 100, m_endTime := Some now,
                        m_nextMiningTime := Some (now + 60 * 60 * 1000),
                        m_transaction := Some tid\<rparr> \<and>
                   transactions ?s' ! tid = mining_reward (minings s ! i)
            else minings ?s' ! i = minings s ! i"
    if i: "i < length (minings s)" for i
  proof (cases "m_status (minings s ! i) = M_mining \<and> owner_active s (minings s ! i)")
    case True
    then have "(i, minings s ! i) \<in> set ?js" using i by (simp add: find_mining_mem)
    from process_jobs_completed [OF assms(1) tg find_mining_distinct this i, of now] True
    show ?thesis by (simp add: s' complete_mining_def)
  next
    case False
    then have "\<forall>j \<in> set ?js. fst j = i \<longrightarrow> \<not> owner_active s (snd j)"
      by (auto simp: find_mining_mem)
    from process_jobs_untouched [OF assms(1) tg i this, of now] False
    show ?thesis by (auto simp: s')
  qed
  have bal: "balances (users ?s' ! i) c =
              balances (users s ! i) c +
              (if status (users s ! i) = Active
               then sum_list (map m_targetAmount
                      (filter (\<lambda>m. m_status m = M_mining \<and> m_user m = i \<and> m_currency m = c)
                         (minings s)))
               else 0)"
    if "i < length (users s)" for i c
    using process_jobs_users [OF assms(1) tg, of now] that
    by (simp add: s' find_mining_snd conj_commute conj_left_commute)
  have tr: "transactions ?s' = transactions s @
           map mining_reward
             (filter (\<lambda>m. m_status m = M_mining \<and> owner_active s m) (minings s))"
    using process_jobs_transactions [OF assms(1) tg, of now]
    by (simp add: s' find_mining_snd)
  have bound: "\<forall>j \<in> set ?js. fst j < length (minings s)"
    by (auto simp: find_mining_mem)
  have su: "drop (length (minings s)) (minings ?s') =
           map (successor now)
             (filter (\<lambda>m. m_status m = M_mining \<and> owner_active s m) (minings s))"
    using process_jobs_successors [OF assms(1) tg bound, of now]
    by (simp add: s' find_mining_snd)
  show ?thesis
    using jobs bal tr su by blast
qed

text \<open>Definitions to unfold when a sweep over the example store is evaluated.\<close>

lemmas sweep_eval =
  processMiningCycles_def find_mining_def process_job_def findById_def save_user_def
  user_valid_def all_currencies_def create_transaction_def transaction_valid_def
  plain_transaction_def createMiningOperation_def complete_mining_def new_mining_def
  sweep_store_def demo_user_def suspended_user_def idle_job_def

theorem mining_sweep_spec_witness:
  "m_status (minings (processMiningCycles 9 sweep_store) ! 0) = M_completed \<and>
   m_minedAmount (minings (processMiningCycles 9 sweep_store) ! 0) = 1000 \<and>
   m_progress (minings (processMiningCycles 9 sweep_store) ! 0) = 100 \<and>
   m_endTime (minings (processMiningCycles 9 sweep_store) ! 0) = Some 9 \<and>
   balances (users (processMiningCycles 9 sweep_store) ! 0) USD = 1100 \<and>
   balances (users (processMiningCycles 9 sweep_store) ! 0) BTC = 1 \<and>
   length (transactions (processMiningCycles 9 sweep_store)) = 2 \<and>
   drop (length (minings sweep_store)) (minings (processMiningCycles 9 sweep_store)) =
     [new_mining 0 USD M_currency 1000 9, new_mining 0 BTC M_crypto 1 9]"
proof -
  have h1: "list_all user_valid (users sweep_store)"
    by (simp add: sweep_store_def demo_user_def suspended_user_def user_valid_def
        all_currencies_def)
  have h2: "\<forall>m \<in> set (minings sweep_store). m_status m = M_mining \<longrightarrow> 0 \<le> m_targetAmount m"
    by (simp add: sweep_store_def new_mining_def idle_job_def)
  note sweep = mining_sweep_spec [OF h1 h2, of 9]
  have job: "m_status (minings (processMiningCycles 9 sweep_store) ! 0) = M_completed \<and>
      m_minedAmount (minings (processMiningCycles 9 sweep_store) ! 0) = 1000 \<and>
      m_progress (minings (processMiningCycles 9 sweep_store) ! 0) = 100 \<and>
      m_endTime (minings (processMiningCycles 9 sweep_store) ! 0) = Some 9"
    using sweep [THEN conjunct1, rule_format, of 0]
    by (auto simp: sweep_store_def demo_user_def new_mining_def owner_active_def)
  have usd: "balances (users (processMiningCycles 9 sweep_store) ! 0) USD = 1100"
    using sweep [THEN conjunct2, THEN conjunct1, rule_format, of 0 USD]
    by (simp add: sweep_store_def demo_user_def new_mining_def idle_job_def)
  have btc: "balances (users (processMiningCycles 9 sweep_store) ! 0) BTC = 1"
    using sweep [THEN conjunct2, THEN conjunct1, rule_format, of 0 BTC]
    by (simp add: sweep_store_def demo_user_def new_mining_def idle_job_def)
  have tr: "length (transactions (processMiningCycles 9 sweep_store)) = 2"
    using sweep [THEN conjunct2, THEN conjunct2, THEN conjunct1]
    by (simp add: sweep_store_def demo_user_def suspended_user_def new_mining_def idle_job_def
        owner_active_def)
  have su: "drop (length (minings sweep_store)) (minings (processMiningCycles 9 sweep_store)) =
     [new_mining 0 USD M_currency 1000 9, new_mining 0 BTC M_crypto 1 9]"
    using sweep [THEN conjunct2, THEN conjunct2, THEN conjunct2]
    by (simp add: sweep_store_def demo_user_def suspended_user_def new_mining_def idle_job_def
        owner_active_def successor_def)
  show ?thesis
    using job usd btc tr su by blast
qed

text \<open>
  The sweep is not unconditional: job 1 of the example store is in status mining with
  target 1000 USD, its owner is suspended, and after the sweep the owner's balance and the
  job are what they were.
\<close>

theorem mining_sweep_skips_inactive:
  "m_status (minings sweep_store ! 1) = M_mining \<and>
   m_user (minings sweep_store ! 1) = 1 \<and>
   m_currency (minings sweep_store ! 1) = USD \<and>
   m_targetAmount (minings sweep_store ! 1) = 1000 \<and>
   balances (users sweep_store ! 1) USD = 100 \<and>
   balances (users (processMiningCycles 9 sweep_store) ! 1) USD = 100 \<and>
   minings (processMiningCycles 9 sweep_store) ! 1 = minings sweep_store ! 1"
  by (simp add: sweep_eval)

text \<open>
  C7 (as amended). Let every user document satisfy the user schema and every job in
  status mining have a non-negative target. One run of \<open>processMiningCycles\<close> that is not
  interleaved with another credits each job it handles (status mining, owner existing and
  active) exactly once: every balance of an active account rises by exactly the sum of
  the targets of its jobs in status mining in that currency, each target counted once,
  and no other balance changes. Afterwards the only jobs of the collection as it was that
  are still in status mining are the skipped ones, so a sweep that starts later reads no
  job that this one completed; and the run appends exactly one reward transaction and one
  successor per handled job.
\<close>

theorem sweep_completes_each_job_once:
  assumes "list_all user_valid (users s)"
    and "\<forall>m \<in> set (minings s). m_status m = M_mining \<longrightarrow> 0 \<le> m_targetAmount m"
  shows "(\<forall>i < length (users s). \<forall>c.
            balances (users (processMiningCycles now s) ! i) c =
              balances (users s ! i) c +
              (if status (users s ! i) = Active
               then sum_list (map m_targetAmount
                      (filter (\<lambda>m. m_status m = M_mining \<and> m_user m = i \<and> m_currency m = c)
                         (minings s)))
               else 0)) \<and>
         length (users (processMiningCycles now s)) = length (users s) \<and>
         (\<forall>i < length (minings s).
            m_status (minings (processMiningCycles now s) ! i) = M_mining \<longrightarrow>
            m_status (minings s ! i) = M_mining \<and> \<not> owner_active s (minings s ! i)) \<and>
         (\<forall>j \<in> set (find_mining (processMiningCycles now s)).
            fst j < length (minings s) \<longrightarrow> \<not> owner_active s (minings s ! fst j)) \<and>
         length (transactions (processMiningCycles now s)) =
           length (transactions s) +
           length (filter (\<lambda>m. m_status m = M_mining \<and> owner_active s m) (minings s)) \<and>
         length (minings (processMiningCycles now s)) =
           length (minings s) +
           length (filter (\<lambda>m. m_status m = M_mining \<and> owner_active s m) (minings s))"
proof -
  let ?js = "find_mining s"
  let ?s' = "processMiningCycles now s"
  have tg: "\<forall>j \<in> set ?js. 0 \<le> m_targetAmount (snd j)"
    using assms(2) by (rule find_mining_targets)
  have s': "?s' = process_jobs now ?js s" by (simp add: processMiningCycles_def)
  have left: "m_status (minings s ! i) = M_mining \<and> \<not> owner_active s (minings s ! i)"
    if i: "i < length (minings s)" and st: "m_status (minings ?s' ! i) = M_mining" for i
  proof (cases "m_status (minings s ! i) = M_mining \<and> owner_active s (minings s ! i)")
    case True
    then have "(i, minings s ! i) \<in> set ?js" using i by (simp add: find_mining_mem)
    from process_jobs_completed [OF assms(1) tg find_mining_distinct this i, of now] True
    have "m_status (minings ?s' ! i) = M_completed"
      by (auto simp: s' complete_mining_def)
    with st show ?thesis by simp
  next
    case False
    then have "\<forall>j \<in> set ?js. fst j = i \<longrightarrow> \<not> owner_active s (snd j)"
      by (auto simp: find_mining_mem)
    from process_jobs_untouched [OF assms(1) tg i this, of now]
    have "minings ?s' ! i = minings s ! i" by (simp add: s')
    with st False show ?thesis by auto
  qed
  have later: "\<not> owner_active s (minings s ! fst j)"
    if "j \<in> set (find_mining ?s')" and "fst j < length (minings s)" for j
  proof -
    have "m_status (minings ?s' ! fst j) = M_mining"
      using that(1) find_mining_mem [of "fst j" "snd j" ?s'] by auto
    with left [OF that(2)] show ?thesis by simp
  qed
  have bal: "balances (users ?s' ! i) c =
              balances (users s ! i) c +
              (if status (users s ! i) = Active
               then sum_list (map m_targetAmount
                      (filter (\<lambda>m. m_status m = M_mining \<and> m_user m = i \<and> m_currency m = c)
                         (minings s)))
               else 0)"
    if "i < length (users s)" for i c
    using process_jobs_users [OF assms(1) tg, of now] that
    by (simp add: s' find_mining_snd conj_commute conj_left_commute)
  have len: "length (users ?s') = length (users s)"
    using process_jobs_users [OF assms(1) tg, of now] by (simp add: s')
  have tr: "length (transactions ?s') = length (transactions s) +
           length (filter (\<lambda>m. m_status m = M_mining \<and> owner_active s m) (minings s))"
    using process_jobs_transactions [OF assms(1) tg, of now]
    by (simp add: s' find_mining_snd)
  have mi: "length (minings ?s') = length (minings s) +
           length (filter (\<lambda>m. m_status m = M_mining \<and> owner_active s m) (minings s))"
    using process_jobs_minings_length [OF assms(1) tg, of now]
    by (simp add: s' find_mining_snd)
  show ?thesis
    using bal len left later tr mi by blast
qed

theorem sweep_completes_each_job_once_witness:
  "balances (users (processMiningCycles 9 sweep_store) ! 0) USD = 1100 \<and>
   balances (users (processMiningCycles 9 sweep_store) ! 0) BTC = 1 \<and>
   balances (users (processMiningCycles 9 sweep_store) ! 1) USD = 100 \<and>
   m_status (minings (processMiningCycles 9 sweep_store) ! 0) \<noteq> M_mining \<and>
   m_status (minings (processMiningCycles 9 sweep_store) ! 3) \<noteq> M_mining \<and>
   length (transactions (processMiningCycles 9 sweep_store)) = 2 \<and>
   length (minings (processMiningCycles 9 sweep_store)) = 6"
proof -
  have h1: "list_all user_valid (users sweep_store)"
    by (simp add: sweep_store_def demo_user_def suspended_user_def user_valid_def
        all_currencies_def)
  have h2: "\<forall>m \<in> set (minings sweep_store). m_status m = M_mining \<longrightarrow> 0 \<le> m_targetAmount m"
    by (simp add: sweep_store_def new_mining_def idle_job_def)
  note once = sweep_completes_each_job_once [OF h1 h2, of 9]
  have usd: "balances (users (processMiningCycles 9 sweep_store) ! 0) USD = 1100"
    using once [THEN conjunct1, rule_format, of 0 USD]
    by (simp add: sweep_store_def demo_user_def new_mining_def idle_job_def)
  have btc: "balances (users (processMiningCycles 9 sweep_store) ! 0) BTC = 1"
    using once [THEN conjunct1, rule_format, of 0 BTC]
    by (simp add: sweep_store_def demo_user_def new_mining_def idle_job_def)
  have sus: "balances (users (processMiningCycles 9 sweep_store) ! 1) USD = 100"
    using once [THEN conjunct1, rule_format, of 1 USD]
    by (simp add: sweep_store_def demo_user_def suspended_user_def new_mining_def idle_job_def)
  have j0: "m_status (minings (processMiningCycles 9 sweep_store) ! 0) \<noteq> M_mining"
    using once [THEN conjunct2, THEN conjunct2, THEN conjunct1, rule_format, of 0]
    by (auto simp: sweep_store_def demo_user_def new_mining_def owner_active_def)
  have j3: "m_status (minings (processMiningCycles 9 sweep_store) ! 3) \<noteq> M_mining"
    using once [THEN conjunct2, THEN conjunct2, THEN conjunct1, rule_format, of 3]
    by (auto simp: sweep_store_def demo_user_def new_mining_def owner_active_def)
  have tr: "length (transactions (processMiningCycles 9 sweep_store)) = 2"
    using once [THEN conjunct2, THEN conjunct2, THEN conjunct2, THEN conjunct2, THEN conjunct1]
    by (simp add: sweep_store_def demo_user_def suspended_user_def new_mining_def idle_job_def
        owner_active_def)
  have mi: "length (minings (processMiningCycles 9 sweep_store)) = 6"
    using once [THEN conjunct2, THEN conjunct2, THEN conjunct2, THEN conjunct2, THEN conjunct2]
    by (simp add: sweep_store_def demo_user_def suspended_user_def new_mining_def idle_job_def
        owner_active_def)
  show ?thesis
    using usd btc sus j0 j3 tr mi by blast
qed

text \<open>
  The code has no step that claims a job before crediting it. When a second sweep reads
  the collection before the first has saved its jobs, both credit job 0 of the example
  store: the owner's USD balance goes from 100 to 2100 for a target of 1000, and four
  reward transactions and four successors are written for two handled jobs.
\<close>

theorem overlapping_sweeps_credit_twice:
  "map m_status (minings sweep_store) = [M_mining, M_mining, M_completed, M_mining] \<and>
   balances (users sweep_store ! 0) USD = 100 \<and>
   balances (users (overlapping_sweeps 9 10 sweep_store) ! 0) USD = 2100 \<and>
   length (transactions (overlapping_sweeps 9 10 sweep_store)) = 4 \<and>
   length (minings (overlapping_sweeps 9 10 sweep_store)) = 8"
  by (simp add: sweep_eval overlapping_sweeps_def)

section \<open>Non-negative balances\<close>

lemma balances_nonneg_iff:
  "balances_nonneg s \<longleftrightarrow> (\<forall>u \<in> set (users s). \<forall>c. 0 \<le> balances u c)"
  by (simp add: balances_nonneg_def list_all_iff set_all_currencies)

lemma save_user_nonneg:
  assumes "balances_nonneg s" and "save_user uid u s = Some s'"
  shows "balances_nonneg s'"
proof -
  have v: "user_valid u" and s': "users s' = (users s)[uid := u]"
    using assms(2) by (auto simp: save_user_def split: if_splits)
  have "set (users s') \<subseteq> insert u (set (users s))"
    unfolding s' by (rule set_update_subset_insert)
  then show ?thesis
    using assms(1) v by (auto simp: balances_nonneg_iff user_valid_iff)
qed

lemma create_transaction_nonneg:
  "create_transaction t s = Some (tid, s') \<Longrightarrow> balances_nonneg s' = balances_nonneg s"
  by (auto simp: create_transaction_def balances_nonneg_def split: if_splits)

lemma send_nonneg:
  "balances_nonneg s \<Longrightarrow> balances_nonneg (snd (send uid c amount reference s))"
  by (auto simp: send_def split: option.splits
      dest: save_user_nonneg create_transaction_nonneg)

lemma receive_nonneg:
  "balances_nonneg s \<Longrightarrow> balances_nonneg (snd (receive uid c amount reference s))"
  by (auto simp: receive_def split: option.splits
      dest: save_user_nonneg create_transaction_nonneg)

lemma transfer_nonneg:
  "balances_nonneg s \<Longrightarrow> balances_nonneg (snd (transfer uid f t amount s))"
  by (auto simp: transfer_def Let_def split: option.splits
      dest: save_user_nonneg create_transaction_nonneg)

lemma crypto_send_nonneg:
  "balances_nonneg s \<Longrightarrow> balances_nonneg (snd (crypto_send uid c amount s))"
  by (auto simp: crypto_send_def split: option.splits
      dest: save_user_nonneg create_transaction_nonneg)

lemma international_nonneg:
  "balances_nonneg s \<Longrightarrow> balances_nonneg (snd (international uid c amount s))"
  by (auto simp: international_def split: option.splits
      dest: save_user_nonneg create_transaction_nonneg)

lemma withdraw_profit_nonneg:
  "balances_nonneg s \<Longrightarrow> balances_nonneg (snd (withdraw_profit uid s))"
  by (auto simp: withdraw_profit_def Let_def split: option.splits
      dest: save_user_nonneg create_transaction_nonneg)

lemma process_job_nonneg: "balances_nonneg s \<Longrightarrow> balances_nonneg (process_job now j s)"
proof -
  have frame: "balances_nonneg (createMiningOperation uid c ty a now (s2\<lparr>minings := ms\<rparr>)) =
      balances_nonneg s2" for uid c ty a s2 ms
    by (simp add: createMiningOperation_def balances_nonneg_def)
  assume "balances_nonneg s"
  then show ?thesis
    by (auto simp: process_job_def frame split: prod.splits option.splits
        dest: save_user_nonneg create_transaction_nonneg)
qed

lemma process_jobs_nonneg: "balances_nonneg s \<Longrightarrow> balances_nonneg (process_jobs now js s)"
  by (induction js arbitrary: s) (simp_all add: process_job_nonneg)

lemma trade_step_nonneg: "balances_nonneg s \<Longrightarrow> balances_nonneg (trade_step rnd j s)"
  by (auto simp: trade_step_def split: prod.splits option.splits
      dest: save_user_nonneg create_transaction_nonneg)

lemma trade_loop_nonneg: "balances_nonneg s \<Longrightarrow> balances_nonneg (trade_loop rnd js s)"
  by (induction js arbitrary: s) (simp_all add: trade_step_nonneg)

lemma apply_operation_nonneg:
  "balances_nonneg s \<Longrightarrow> balances_nonneg (apply_operation x s)"
  by (cases x)
    (simp_all add: send_nonneg receive_nonneg transfer_nonneg crypto_send_nonneg
      international_nonneg withdraw_profit_nonneg process_jobs_nonneg trade_loop_nonneg
      processMiningCycles_def executeTradingRobots_def)

lemma run_nonneg: "balances_nonneg s \<Longrightarrow> balances_nonneg (run xs s)"
  by (induction xs arbitrary: s) (simp_all add: apply_operation_nonneg)

text \<open>
  C1. From a store in which every balance of every user is non-negative, after every
  prefix of every sequence of send, receive, transfer, crypto send, international
  transfer, mining completion sweep, trading cycle and profit withdrawal, with any
  arguments, every balance of every user is non-negative.
\<close>

theorem balances_never_negative:
  assumes "balances_nonneg s"
  shows "balances_nonneg (run (take n ops) s) \<and>
         (\<forall>u \<in> set (users (run (take n ops) s)). \<forall>c. 0 \<le> balances u c)"
proof -
  have "balances_nonneg (run (take n ops) s)"
    using assms by (rule run_nonneg)
  then show ?thesis by (simp add: balances_nonneg_iff)
qed

theorem balances_never_negative_witness:
  "balances_nonneg demo_store \<and>
   balances_nonneg
     (run (take 3 [Op_send 0 USD 60 None, Op_send 0 USD 60 None, Op_receive 0 EUR 5 None,
          Op_send 0 EUR 1 None])
        demo_store) \<and>
   balances
     (users (run (take 3 [Op_send 0 USD 60 None, Op_send 0 USD 60 None, Op_receive 0 EUR 5 None,
          Op_send 0 EUR 1 None])
        demo_store) ! 0) USD = 40"
proof -
  have h: "balances_nonneg demo_store"
    by (simp add: balances_nonneg_def demo_store_def demo_user_def all_currencies_def)
  have e: "balances
     (users (run (take 3 [Op_send 0 USD 60 None, Op_send 0 USD 60 None, Op_receive 0 EUR 5 None,
          Op_send 0 EUR 1 None])
        demo_store) ! 0) USD = 40"
    by (simp add: demo_store_def demo_user_def send_def receive_def protect_def findById_def
        sendMoney_schema_def receiveMoney_schema_def joi_positive_def joi_optional_string_def
        is_fiat_def save_user_def user_valid_def
        all_currencies_def create_transaction_def transaction_valid_def plain_transaction_def)
  from balances_never_negative [OF h, of 3
      "[Op_send 0 USD 60 None, Op_send 0 USD 60 None, Op_receive 0 EUR 5 None,
          Op_send 0 EUR 1 None]"] h e
  show ?thesis by blast
qed

end
